theory Spec2Isabelle
  imports Complex_Main "HOL-Library.Multiset"
begin

section \<open>Conventions of the embedding\<close>

text \<open>
  The repository is numerical Python over numpy. Python's \<open>int\<close> counters are modelled as
  \<open>nat\<close> (they only count up from 0) and array indices as \<open>nat\<close>. A finite float64 value
  is the real number it denotes, so a comparison of two floats is the comparison of two
  reals; the one float operation of \<open>clusterval\<close>, the division of two counters, is read as
  the exact quotient it rounds. Exceptions of the source are values of \<open>py_error\<close>, returned
  in the left summand.
\<close>

datatype py_error = ValueError | ZeroDivisionError | IndexError

section \<open>toolbox.py: clusterval\<close>

text \<open>
  \<^verbatim>\<open>
  def clusterval(y, clusterid):
      N = y.shape[0]
      NMI = cluster_metrics.supervised.normalized_mutual_info_score(y,clusterid)
      f00=0; f01=0; f10=0; f11=0
      for i in range(N):
          for j in range(i):
              if y[i]!=y[j] and clusterid[i]!=clusterid[j]: f00 += 1;
              elif y[i]==y[j] and clusterid[i]==clusterid[j]: f11 += 1;
              elif y[i]==y[j] and clusterid[i]!=clusterid[j]: f10 += 1;
              else: f01 +=1;
      rand = np.float(f00+f11)/(f00+f01+f10+f11)
      jaccard = np.float(f11)/(f01+f10+f11)
      return rand, jaccard, NMI
  \<close>
  The four counters are the loop state. \<open>np.float\<close> is Python's built-in \<open>float\<close>, and
  the counters are Python ints, so each division is Python's float division, which raises
  \<open>ZeroDivisionError\<close> on a zero divisor. The normalized mutual information is computed
  by scikit-learn, outside the repository: its value is the parameter \<open>NMI\<close>, and the one
  behaviour of that call the model keeps is that it raises \<open>ValueError\<close> when the two
  vectors differ in length, before the loop is reached.
\<close>

record counts =
  f00 :: nat
  f01 :: nat
  f10 :: nat
  f11 :: nat

definition zero_counts :: counts where
  "zero_counts = \<lparr>f00 = 0, f01 = 0, f10 = 0, f11 = 0\<rparr>"

definition classify_pair :: "'a list \<Rightarrow> 'b list \<Rightarrow> nat \<Rightarrow> nat \<Rightarrow> counts \<Rightarrow> counts" where
  "classify_pair y clusterid i j c =
     (if y ! i \<noteq> y ! j \<and> clusterid ! i \<noteq> clusterid ! j then c\<lparr>f00 := f00 c + 1\<rparr>
      else if y ! i = y ! j \<and> clusterid ! i = clusterid ! j then c\<lparr>f11 := f11 c + 1\<rparr>
      else if y ! i = y ! j \<and> clusterid ! i \<noteq> clusterid ! j then c\<lparr>f10 := f10 c + 1\<rparr>
      else c\<lparr>f01 := f01 c + 1\<rparr>)"

definition inner_loop :: "'a list \<Rightarrow> 'b list \<Rightarrow> nat \<Rightarrow> counts \<Rightarrow> counts" where
  "inner_loop y clusterid i c = fold (classify_pair y clusterid i) [0..<i] c"

definition pair_counts :: "'a list \<Rightarrow> 'b list \<Rightarrow> counts" where
  "pair_counts y clusterid = fold (inner_loop y clusterid) [0..<length y] zero_counts"

definition float_div :: "nat \<Rightarrow> nat \<Rightarrow> py_error + real" where
  "float_div a b = (if b = 0 then Inl ZeroDivisionError else Inr (real a / real b))"

definition clusterval :: "real \<Rightarrow> 'a list \<Rightarrow> 'b list \<Rightarrow> py_error + (real \<times> real \<times> real)" where
  "clusterval NMI y clusterid =
     (if length y \<noteq> length clusterid then Inl ValueError
      else let c = pair_counts y clusterid in
        case float_div (f00 c + f11 c) (f00 c + f01 c + f10 c + f11 c) of
          Inl e \<Rightarrow> Inl e
        | Inr rand \<Rightarrow>
            (case float_div (f11 c) (f01 c + f10 c + f11 c) of
               Inl e \<Rightarrow> Inl e
             | Inr jaccard \<Rightarrow> Inr (rand, jaccard, NMI)))"

text \<open>
  The unordered pairs of distinct observations, as the two loops enumerate them, and the
  cells of the spec's two-by-two table: same or different label, same or different
  cluster.
\<close>

definition index_pairs :: "nat \<Rightarrow> (nat \<times> nat) set" where
  "index_pairs N = {(i, j). j < i \<and> i < N}"

definition bucket :: "'a list \<Rightarrow> 'b list \<Rightarrow> bool \<Rightarrow> bool \<Rightarrow> (nat \<times> nat) set" where
  "bucket y clusterid same_label same_cluster =
     {(i, j). (i, j) \<in> index_pairs (length y) \<and> (y ! i = y ! j) = same_label
                \<and> (clusterid ! i = clusterid ! j) = same_cluster}"

definition loop_pairs :: "nat \<Rightarrow> (nat \<times> nat) list" where
  "loop_pairs N = concat (map (\<lambda>i. map (\<lambda>j. (i, j)) [0..<i]) [0..<N])"

section \<open>Processing.py: the quartile discretizer\<close>

text \<open>
  \<^verbatim>\<open>
  classY = np.asarray(np.mat(np.empty((N))).T).squeeze()
  for i in range(0,N):
      if y[i] <= np.percentile(y,25):
          classY[i] = 0
      elif y[i] <= np.percentile(y,50):
          classY[i] = 1
      elif y[i] <= np.percentile(y,75):
          classY[i] = 2
      else:
          classY[i] = 3
  \<close>
  \<open>np.percentile\<close> belongs to numpy, not to the repository, and computes in float64. The
  model takes it as the parameter \<open>np_percentile\<close>: whatever floats it returns, the loop
  compares \<open>y[i]\<close> with them.
\<close>

text \<open>The body of the loop: the chain of comparisons that picks the class of \<open>y[i]\<close>.\<close>

definition class_of :: "(real list \<Rightarrow> real \<Rightarrow> real) \<Rightarrow> real list \<Rightarrow> nat \<Rightarrow> nat" where
  "class_of np_percentile y i =
     (if y ! i \<le> np_percentile y 25 then 0
      else if y ! i \<le> np_percentile y 50 then 1
      else if y ! i \<le> np_percentile y 75 then 2
      else 3)"

text \<open>
  The array the loop writes into. \<open>np.empty((N))\<close> has shape \<open>(N,)\<close>, \<open>np.mat\<close> makes it a
  \<open>1 x N\<close> matrix, \<open>.T\<close> an \<open>N x 1\<close> one, and \<open>squeeze()\<close> removes every axis of length 1:
  the result has shape \<open>(N,)\<close>, except for \<open>N = 1\<close>, where both axes go and a
  0-dimensional array is left. Storing into a 0-dimensional array at an index raises
  \<open>IndexError\<close>. The cells hold the floats \<open>0.0\<close> to \<open>3.0\<close>, modelled by their integer
  values; the content \<open>np.empty\<close> leaves in a cell is arbitrary, here 0.
\<close>

datatype 'a ndarray = Array0 'a | Array1 "'a list"

fun setitem :: "'a ndarray \<Rightarrow> nat \<Rightarrow> 'a \<Rightarrow> py_error + 'a ndarray" where
  "setitem (Array0 x) i v = Inl IndexError"
| "setitem (Array1 xs) i v =
     (if i < length xs then Inr (Array1 (xs[i := v])) else Inl IndexError)"

definition empty_squeezed :: "nat \<Rightarrow> nat ndarray" where
  "empty_squeezed N = (if N = 1 then Array0 0 else Array1 (replicate N 0))"

fun classY_loop ::
  "(real list \<Rightarrow> real \<Rightarrow> real) \<Rightarrow> real list \<Rightarrow> nat list \<Rightarrow> nat ndarray
     \<Rightarrow> py_error + nat ndarray" where
  "classY_loop np_percentile y [] a = Inr a"
| "classY_loop np_percentile y (i # is) a =
     (case setitem a i (class_of np_percentile y i) of
        Inl e \<Rightarrow> Inl e
      | Inr a' \<Rightarrow> classY_loop np_percentile y is a')"

definition classY :: "(real list \<Rightarrow> real \<Rightarrow> real) \<Rightarrow> real list \<Rightarrow> py_error + nat ndarray" where
  "classY np_percentile y =
     classY_loop np_percentile y [0..<length y] (empty_squeezed (length y))"

text \<open>The number of observations a class receives.\<close>

definition class_size :: "nat list \<Rightarrow> nat \<Rightarrow> nat" where
  "class_size cs k = length (filter (\<lambda>c. c = k) cs)"

text \<open>
  Modelled from the spec: the percentile by "linear interpolation between order statistics,
  the conventional percentile definition", in exact arithmetic. On the sorted data \<open>ap\<close> of
  length \<open>Nx\<close> the virtual index is \<open>q / 100 * (Nx - 1)\<close>, its floor and the next index
  (clipped to \<open>Nx - 1\<close>) are the two order statistics, and the fractional part is the
  weight of the upper one. \<open>np.percentile\<close> returns this value rounded in float64; where the
  data are small integers and the weights quarters, every step is exact and the two agree.
\<close>

definition percentile :: "real list \<Rightarrow> real \<Rightarrow> real" where
  "percentile a q =
     (let ap = sort a;
          Nx = length a;
          indices = q / 100 * real (Nx - 1);
          indices_below = nat \<lfloor>indices\<rfloor>;
          indices_above = (if indices_below + 1 > Nx - 1 then Nx - 1 else indices_below + 1);
          weights_above = indices - real indices_below;
          weights_below = 1 - weights_above
      in ap ! indices_below * weights_below + ap ! indices_above * weights_above)"

text \<open>The two order statistics of a percentile: the lower index, and the upper as clipped.\<close>

definition lower_index :: "real list \<Rightarrow> real \<Rightarrow> nat" where
  "lower_index a q = nat \<lfloor>q / 100 * real (length a - 1)\<rfloor>"

definition upper_index :: "nat \<Rightarrow> nat \<Rightarrow> nat" where
  "upper_index n lo = (if lo + 1 > n - 1 then n - 1 else lo + 1)"

text \<open>
  A percentile function brackets at \<open>q\<close> when the value it returns for \<open>y\<close> is at least the
  lower order statistic and less than the next one.
\<close>

definition brackets :: "(real list \<Rightarrow> real \<Rightarrow> real) \<Rightarrow> real list \<Rightarrow> real \<Rightarrow> bool" where
  "brackets np_percentile y q =
     (sort y ! lower_index y q \<le> np_percentile y q
      \<and> np_percentile y q < sort y ! (lower_index y q + 1))"

section \<open>clusterval: the loops count the cells of the pair table\<close>

lemma inner_fold_f00:
  "f00 (fold (classify_pair y c i) js cnt) =
     f00 cnt + length (filter (\<lambda>j. y ! i \<noteq> y ! j \<and> c ! i \<noteq> c ! j) js)"
  by (induction js arbitrary: cnt) (auto simp: classify_pair_def)

lemma inner_fold_f11:
  "f11 (fold (classify_pair y c i) js cnt) =
     f11 cnt + length (filter (\<lambda>j. y ! i = y ! j \<and> c ! i = c ! j) js)"
  by (induction js arbitrary: cnt) (auto simp: classify_pair_def)

lemma inner_fold_f10:
  "f10 (fold (classify_pair y c i) js cnt) =
     f10 cnt + length (filter (\<lambda>j. y ! i = y ! j \<and> c ! i \<noteq> c ! j) js)"
  by (induction js arbitrary: cnt) (auto simp: classify_pair_def)

lemma inner_fold_f01:
  "f01 (fold (classify_pair y c i) js cnt) =
     f01 cnt + length (filter (\<lambda>j. y ! i \<noteq> y ! j \<and> c ! i = c ! j) js)"
  by (induction js arbitrary: cnt) (auto simp: classify_pair_def)

lemma outer_fold_f00:
  "f00 (fold (inner_loop y c) is cnt) =
     f00 cnt + length (filter (\<lambda>(i, j). y ! i \<noteq> y ! j \<and> c ! i \<noteq> c ! j)
                        (concat (map (\<lambda>i. map (\<lambda>j. (i, j)) [0..<i]) is)))"
  by (induction "is" arbitrary: cnt)
     (simp_all add: inner_loop_def inner_fold_f00 comp_def)

lemma outer_fold_f11:
  "f11 (fold (inner_loop y c) is cnt) =
     f11 cnt + length (filter (\<lambda>(i, j). y ! i = y ! j \<and> c ! i = c ! j)
                        (concat (map (\<lambda>i. map (\<lambda>j. (i, j)) [0..<i]) is)))"
  by (induction "is" arbitrary: cnt)
     (simp_all add: inner_loop_def inner_fold_f11 comp_def)

lemma outer_fold_f10:
  "f10 (fold (inner_loop y c) is cnt) =
     f10 cnt + length (filter (\<lambda>(i, j). y ! i = y ! j \<and> c ! i \<noteq> c ! j)
                        (concat (map (\<lambda>i. map (\<lambda>j. (i, j)) [0..<i]) is)))"
  by (induction "is" arbitrary: cnt)
     (simp_all add: inner_loop_def inner_fold_f10 comp_def)

lemma outer_fold_f01:
  "f01 (fold (inner_loop y c) is cnt) =
     f01 cnt + length (filter (\<lambda>(i, j). y ! i \<noteq> y ! j \<and> c ! i = c ! j)
                        (concat (map (\<lambda>i. map (\<lambda>j. (i, j)) [0..<i]) is)))"
  by (induction "is" arbitrary: cnt)
     (simp_all add: inner_loop_def inner_fold_f01 comp_def)

lemma set_loop_pairs: "set (loop_pairs N) = index_pairs N"
  by (auto simp: loop_pairs_def index_pairs_def)

lemma loop_pairs_Suc: "loop_pairs (Suc N) = loop_pairs N @ map (\<lambda>j. (N, j)) [0..<N]"
  by (simp add: loop_pairs_def)

lemma distinct_loop_pairs: "distinct (loop_pairs N)"
proof (induction N)
  case 0
  show ?case by (simp add: loop_pairs_def)
next
  case (Suc N)
  have "set (loop_pairs N) \<inter> set (map (\<lambda>j. (N, j)) [0..<N]) = {}"
    by (auto simp: set_loop_pairs index_pairs_def)
  with Suc show ?case
    by (simp add: loop_pairs_Suc distinct_map inj_on_def)
qed

lemma length_loop_pairs: "2 * length (loop_pairs N) = N * (N - 1)"
  unfolding loop_pairs_def
  by (induction N) (auto simp: algebra_simps)

lemma card_index_pairs: "2 * card (index_pairs N) = N * (N - 1)"
  using length_loop_pairs[of N] distinct_card[OF distinct_loop_pairs, of N]
  by (simp add: set_loop_pairs)

lemma filter_loop_pairs_card:
  "length (filter P (loop_pairs N)) = card {p \<in> index_pairs N. P p}"
proof -
  have "distinct (filter P (loop_pairs N))"
    using distinct_loop_pairs by simp
  then have "length (filter P (loop_pairs N)) = card (set (filter P (loop_pairs N)))"
    by (simp only: distinct_card)
  also have "set (filter P (loop_pairs N)) = {p \<in> index_pairs N. P p}"
    by (auto simp: set_loop_pairs)
  finally show ?thesis .
qed

lemma bucket_f00: "f00 (pair_counts y c) = card (bucket y c False False)"
  unfolding pair_counts_def outer_fold_f00 bucket_def
  by (simp add: zero_counts_def loop_pairs_def[symmetric] filter_loop_pairs_card)
     (rule arg_cong[where f = card], auto)


lemma bucket_f11: "f11 (pair_counts y c) = card (bucket y c True True)"
  unfolding pair_counts_def outer_fold_f11 bucket_def
  by (simp add: zero_counts_def loop_pairs_def[symmetric] filter_loop_pairs_card)
     (rule arg_cong[where f = card], auto)

lemma bucket_f10: "f10 (pair_counts y c) = card (bucket y c True False)"
  unfolding pair_counts_def outer_fold_f10 bucket_def
  by (simp add: zero_counts_def loop_pairs_def[symmetric] filter_loop_pairs_card)
     (rule arg_cong[where f = card], auto)

lemma bucket_f01: "f01 (pair_counts y c) = card (bucket y c False True)"
  unfolding pair_counts_def outer_fold_f01 bucket_def
  by (simp add: zero_counts_def loop_pairs_def[symmetric] filter_loop_pairs_card)
     (rule arg_cong[where f = card], auto)

lemma finite_index_pairs: "finite (index_pairs N)"
  using set_loop_pairs[of N, symmetric] by simp

lemma finite_bucket: "finite (bucket y c a b)"
  by (rule finite_subset[OF _ finite_index_pairs[of "length y"]]) (auto simp: bucket_def)

lemma bucket_disjoint: "(a, b) \<noteq> (a', b') \<Longrightarrow> bucket y c a b \<inter> bucket y c a' b' = {}"
  by (auto simp: bucket_def)

lemma bucket_cover:
  "bucket y c False False \<union> bucket y c True True \<union> bucket y c True False \<union> bucket y c False True
     = index_pairs (length y)"
  by (auto simp: bucket_def)

lemma pair_counts_total:
  "2 * (f00 (pair_counts y c) + f01 (pair_counts y c) + f10 (pair_counts y c) + f11 (pair_counts y c))
     = length y * (length y - 1)"
proof -
  let ?A = "bucket y c False False" and ?B = "bucket y c True True"
  let ?C = "bucket y c True False" and ?D = "bucket y c False True"
  have "card (?A \<union> ?B \<union> ?C \<union> ?D) = card ?A + card ?B + card ?C + card ?D"
    by (simp add: card_Un_disjoint finite_bucket bucket_disjoint Int_Un_distrib2)
  then have "card (index_pairs (length y)) = card ?A + card ?B + card ?C + card ?D"
    by (simp only: bucket_cover)
  then show ?thesis
    using card_index_pairs[of "length y"]
    by (simp add: bucket_f00 bucket_f11 bucket_f10 bucket_f01)
qed

lemma clusterval_returns:
  assumes "length y = length clusterid"
    and "f00 (pair_counts y clusterid) + f01 (pair_counts y clusterid)
           + f10 (pair_counts y clusterid) + f11 (pair_counts y clusterid) \<noteq> 0"
    and "f01 (pair_counts y clusterid) + f10 (pair_counts y clusterid)
           + f11 (pair_counts y clusterid) \<noteq> 0"
  shows "clusterval NMI y clusterid =
     Inr (real (f00 (pair_counts y clusterid) + f11 (pair_counts y clusterid))
            / real (f00 (pair_counts y clusterid) + f01 (pair_counts y clusterid)
                     + f10 (pair_counts y clusterid) + f11 (pair_counts y clusterid)),
          real (f11 (pair_counts y clusterid))
            / real (f01 (pair_counts y clusterid) + f10 (pair_counts y clusterid)
                     + f11 (pair_counts y clusterid)),
          NMI)"
  using assms by (simp add: clusterval_def float_div_def Let_def)

lemma clusterval_raises:
  assumes "length y = length clusterid"
    and "f00 (pair_counts y clusterid) + f01 (pair_counts y clusterid)
           + f10 (pair_counts y clusterid) + f11 (pair_counts y clusterid) = 0
         \<or> f01 (pair_counts y clusterid) + f10 (pair_counts y clusterid)
           + f11 (pair_counts y clusterid) = 0"
  shows "clusterval NMI y clusterid = Inl ZeroDivisionError"
  using assms by (auto simp: clusterval_def float_div_def Let_def)

lemma total_pos:
  assumes "2 \<le> length y"
  shows "f00 (pair_counts y c) + f01 (pair_counts y c) + f10 (pair_counts y c) + f11 (pair_counts y c) \<noteq> 0"
proof
  assume "f00 (pair_counts y c) + f01 (pair_counts y c) + f10 (pair_counts y c) + f11 (pair_counts y c) = 0"
  with pair_counts_total[of y c] have "length y * (length y - 1) = 0" by simp
  with assms show False by simp
qed

lemma renamed_bucket_empty:
  assumes "inj_on g (set y)" "a \<noteq> b"
  shows "bucket y (map g y) a b = {}"
  using assms by (auto simp: bucket_def index_pairs_def inj_on_def)

lemma same_label_bucket_empty_iff:
  assumes "inj_on g (set y)"
  shows "bucket y (map g y) True True = {} \<longleftrightarrow> distinct y"
proof
  assume e: "bucket y (map g y) True True = {}"
  show "distinct y"
    unfolding distinct_conv_nth
  proof (intro allI impI)
    fix i j assume ij: "i < length y" "j < length y" "i \<noteq> j"
    show "y ! i \<noteq> y ! j"
    proof
      assume eq: "y ! i = y ! j"
      from ij have "j < i \<or> i < j" by arith
      then have "(i, j) \<in> bucket y (map g y) True True \<or> (j, i) \<in> bucket y (map g y) True True"
        using ij eq by (auto simp: bucket_def index_pairs_def)
      with e show False by simp
    qed
  qed
next
  assume "distinct y"
  then show "bucket y (map g y) True True = {}"
    by (auto simp: bucket_def index_pairs_def distinct_conv_nth)
qed

lemma bucket_unique:
  assumes "p \<in> index_pairs (length y)"
  shows "\<exists>!ab. p \<in> bucket y c (fst ab) (snd ab)"
proof -
  obtain i j where p: "p = (i, j)" by (cases p)
  show ?thesis
  proof (rule ex1I[where a = "(y ! i = y ! j, c ! i = c ! j)"])
    show "p \<in> bucket y c (fst (y ! i = y ! j, c ! i = c ! j)) (snd (y ! i = y ! j, c ! i = c ! j))"
      using assms p by (simp add: bucket_def)
  next
    fix ab assume "p \<in> bucket y c (fst ab) (snd ab)"
    then show "ab = (y ! i = y ! j, c ! i = c ! j)"
      using p by (cases ab) (auto simp: bucket_def)
  qed
qed

section \<open>clusterval: the claims\<close>

text \<open>
  C2 (amended). For equal-length vectors \<open>y\<close> and \<open>clusterid\<close> of length \<open>N \<ge> 2\<close>, every one
  of the \<open>N (N - 1) / 2\<close> unordered pairs of distinct observations lies in exactly one of
  the four cells, the counters \<open>f00\<close>, \<open>f11\<close>, \<open>f10\<close>, \<open>f01\<close> are the sizes of the cells
  (different label and different cluster, same and same, same label and different cluster,
  different label and same cluster), and \<open>clusterval\<close> returns
  \<open>Rand = (f00 + f11) / (f00 + f01 + f10 + f11)\<close> and \<open>Jaccard = f11 / (f01 + f10 + f11)\<close>
  whenever \<open>f01 + f10 + f11\<close> is not zero; when it is zero, the division raises
  \<open>ZeroDivisionError\<close> and nothing is returned.
\<close>

theorem clusterval_pair_buckets:
  assumes "length y = length clusterid" and "2 \<le> length y"
    and "c = pair_counts y clusterid"
  shows "2 * card (index_pairs (length y)) = length y * (length y - 1)
       \<and> (\<forall>p \<in> index_pairs (length y). \<exists>!ab. p \<in> bucket y clusterid (fst ab) (snd ab))
       \<and> f00 c = card (bucket y clusterid False False)
       \<and> f11 c = card (bucket y clusterid True True)
       \<and> f10 c = card (bucket y clusterid True False)
       \<and> f01 c = card (bucket y clusterid False True)
       \<and> (if f01 c + f10 c + f11 c = 0
          then clusterval NMI y clusterid = Inl ZeroDivisionError
          else clusterval NMI y clusterid =
                 Inr (real (f00 c + f11 c) / real (f00 c + f01 c + f10 c + f11 c),
                      real (f11 c) / real (f01 c + f10 c + f11 c),
                      NMI))"
proof -
  have tot: "f00 c + f01 c + f10 c + f11 c \<noteq> 0"
    unfolding assms(3) using assms(2) by (rule total_pos)
  have res: "if f01 c + f10 c + f11 c = 0
          then clusterval NMI y clusterid = Inl ZeroDivisionError
          else clusterval NMI y clusterid =
                 Inr (real (f00 c + f11 c) / real (f00 c + f01 c + f10 c + f11 c),
                      real (f11 c) / real (f01 c + f10 c + f11 c),
                      NMI)"
  proof (cases "f01 c + f10 c + f11 c = 0")
    case True
    then have "clusterval NMI y clusterid = Inl ZeroDivisionError"
      unfolding assms(3) by (intro clusterval_raises assms(1) disjI2)
    with True show ?thesis by simp
  next
    case False
    with tot have "clusterval NMI y clusterid =
                 Inr (real (f00 c + f11 c) / real (f00 c + f01 c + f10 c + f11 c),
                      real (f11 c) / real (f01 c + f10 c + f11 c),
                      NMI)"
      unfolding assms(3) by (intro clusterval_returns assms(1))
    with False show ?thesis by simp
  qed
  have uniq: "\<forall>p \<in> index_pairs (length y). \<exists>!ab. p \<in> bucket y clusterid (fst ab) (snd ab)"
    by (intro ballI bucket_unique)
  show ?thesis
    using res uniq card_index_pairs[of "length y"]
    by (simp only: assms(3) bucket_f00 bucket_f11 bucket_f10 bucket_f01 simp_thms)
qed

theorem clusterval_pair_buckets_witness:
  "clusterval 1 [0, 0, 1 :: int] [0, 1, 1 :: int] = Inr (1 / 3, 0, 1)
   \<and> card (bucket [0, 0, 1 :: int] [0, 1, 1 :: int] False False) = 1"
proof -
  have c: "pair_counts [0, 0, 1 :: int] [0, 1, 1 :: int] = \<lparr>f00 = 1, f01 = 1, f10 = 1, f11 = 0\<rparr>"
    by code_simp
  show ?thesis
    using clusterval_pair_buckets[of "[0, 0, 1 :: int]" "[0, 1, 1 :: int]"
        "\<lparr>f00 = 1, f01 = 1, f10 = 1, f11 = 0\<rparr>" 1]
    by (simp add: c)
qed

text \<open>
  As first stated, C2 has a result for every input of length at least 2. Two observations
  that differ in label and in cluster leave the Jaccard denominator at 0, and there is
  none.
\<close>

theorem clusterval_pair_buckets_counterexample:
  "clusterval 1 [0, 1 :: int] [0, 1 :: int] = Inl ZeroDivisionError"
  by code_simp

text \<open>
  C4. Whatever the input, a result of \<open>clusterval\<close> is the triple of the Rand index, the
  Jaccard coefficient and the normalized mutual information, in this order: the entropy and
  the purity of the docstring are no part of it.
\<close>

theorem clusterval_result_triple:
  assumes "clusterval NMI y clusterid = Inr r" and "c = pair_counts y clusterid"
  shows "r = (real (f00 c + f11 c) / real (f00 c + f01 c + f10 c + f11 c),
              real (f11 c) / real (f01 c + f10 c + f11 c),
              NMI)"
  using assms
  by (auto simp: clusterval_def float_div_def Let_def split: if_splits)

theorem clusterval_result_triple_witness:
  "clusterval (7 / 10) [0, 0, 1, 1 :: int] [0, 0, 0, 1 :: int] = Inr (1 / 2, 1 / 4, 7 / 10)
   \<and> (1 / 2, 1 / 4, 7 / 10 :: real)
       = (real (2 + 1) / real (2 + 2 + 1 + 1), real 1 / real (2 + 1 + 1), 7 / 10)"
proof -
  have c: "\<lparr>f00 = 2, f01 = 2, f10 = 1, f11 = 1\<rparr> = pair_counts [0, 0, 1, 1 :: int] [0, 0, 0, 1 :: int]"
    by code_simp
  have r: "clusterval (7 / 10) [0, 0, 1, 1 :: int] [0, 0, 0, 1 :: int] = Inr (1 / 2, 1 / 4, 7 / 10)"
    by (simp add: clusterval_def float_div_def c[symmetric])
  from clusterval_result_triple[OF r c] r show ?thesis by simp
qed

text \<open>
  C5 (amended). Let \<open>y\<close> have length \<open>N \<ge> 2\<close> and let \<open>clusterid\<close> be \<open>y\<close> with its label
  values renamed one-to-one. If two observations share a label, \<open>clusterval\<close> returns Rand
  index 1 and Jaccard index 1. If the labels are pairwise different, no pair is in a cell
  of the Jaccard denominator, and the call raises \<open>ZeroDivisionError\<close>.
\<close>

theorem clusterval_renaming:
  assumes "2 \<le> length y" and "inj_on g (set y)"
  shows "(\<not> distinct y \<longrightarrow> clusterval NMI y (map g y) = Inr (1, 1, NMI))
       \<and> (distinct y \<longrightarrow> clusterval NMI y (map g y) = Inl ZeroDivisionError)"
proof -
  let ?c = "pair_counts y (map g y)"
  have z10: "f10 ?c = 0" and z01: "f01 ?c = 0"
    using assms(2) by (simp_all add: bucket_f10 bucket_f01 renamed_bucket_empty)
  have tot: "f00 ?c + f01 ?c + f10 ?c + f11 ?c \<noteq> 0"
    using assms(1) by (rule total_pos)
  have f11_iff: "f11 ?c = 0 \<longleftrightarrow> distinct y"
    using same_label_bucket_empty_iff[OF assms(2)]
    by (simp add: bucket_f11 finite_bucket)
  show ?thesis
  proof (intro conjI impI)
    assume "\<not> distinct y"
    then have pos: "f11 ?c \<noteq> 0" using f11_iff by simp
    then have "f01 ?c + f10 ?c + f11 ?c \<noteq> 0" by simp
    from clusterval_returns[OF _ tot this, of NMI]
    show "clusterval NMI y (map g y) = Inr (1, 1, NMI)"
      using pos by (simp add: z10 z01)
  next
    assume "distinct y"
    then have "f01 ?c + f10 ?c + f11 ?c = 0" using f11_iff z10 z01 by simp
    then show "clusterval NMI y (map g y) = Inl ZeroDivisionError"
      by (intro clusterval_raises) simp_all
  qed
qed

theorem clusterval_renaming_witness:
  "clusterval 1 [0, 0, 1 :: int] (map (\<lambda>v. v + 5) [0, 0, 1 :: int]) = Inr (1, 1, 1)
   \<and> clusterval 1 [0, 1 :: int] (map (\<lambda>v. v + 5) [0, 1 :: int]) = Inl ZeroDivisionError"
  using clusterval_renaming[of "[0, 0, 1 :: int]" "\<lambda>v. v + 5" 1]
    clusterval_renaming[of "[0, 1 :: int]" "\<lambda>v. v + 5" 1]
  by (simp add: inj_on_def)

text \<open>
  As first stated, C5 holds for every renaming. The labels 0 and 1 renamed to 1 and 0 are
  pairwise different: the call raises instead of returning two indices equal to 1.
\<close>

theorem clusterval_renaming_counterexample:
  "clusterval 1 [0, 1 :: int] [1, 0 :: int] = Inl ZeroDivisionError"
  by code_simp

text \<open>
  C6 (amended). For \<open>y = [0,0,1,1]\<close> and \<open>clusterid = [0,1,0,1]\<close> the loops count
  \<open>f00 = 2\<close>, \<open>f01 = 2\<close>, \<open>f10 = 2\<close>, \<open>f11 = 0\<close> over the 6 unordered pairs (the pairs of
  observations 1 and 2, and 0 and 3, differ in label and in cluster), and \<open>clusterval\<close>
  returns \<open>Rand = 2/6 = 1/3\<close> and \<open>Jaccard = 0/4 = 0\<close>.
\<close>

theorem clusterval_disagreement_example:
  "pair_counts [0, 0, 1, 1 :: int] [0, 1, 0, 1 :: int] = \<lparr>f00 = 2, f01 = 2, f10 = 2, f11 = 0\<rparr>
   \<and> clusterval NMI [0, 0, 1, 1 :: int] [0, 1, 0, 1 :: int] = Inr (1 / 3, 0, NMI)"
proof -
  have c: "pair_counts [0, 0, 1, 1 :: int] [0, 1, 0, 1 :: int] = \<lparr>f00 = 2, f01 = 2, f10 = 2, f11 = 0\<rparr>"
    by code_simp
  then show ?thesis
    by (simp add: clusterval_def float_div_def)
qed

text \<open>
  As first stated, C6 has \<open>f00 = 0\<close> and a Rand index of 0.
\<close>

theorem clusterval_disagreement_counterexample:
  "f00 (pair_counts [0, 0, 1, 1 :: int] [0, 1, 0, 1 :: int]) \<noteq> 0
   \<and> clusterval 0 [0, 0, 1, 1 :: int] [0, 1, 0, 1 :: int] \<noteq> Inr (0, 0, 0)"
proof -
  have c: "pair_counts [0, 0, 1, 1 :: int] [0, 1, 0, 1 :: int] = \<lparr>f00 = 2, f01 = 2, f10 = 2, f11 = 0\<rparr>"
    by code_simp
  then show ?thesis
    by (simp add: clusterval_def float_div_def)
qed

text \<open>
  C7 (amended). For equal-length inputs of \<open>clusterval\<close> on which a denominator is zero,
  that is \<open>f00 + f01 + f10 + f11 = 0\<close> or \<open>f01 + f10 + f11 = 0\<close>, the call raises
  \<open>ZeroDivisionError\<close>: no NaN and no infinity is returned.
\<close>

theorem clusterval_zero_division:
  assumes "length y = length clusterid" and "c = pair_counts y clusterid"
    and "f00 c + f01 c + f10 c + f11 c = 0 \<or> f01 c + f10 c + f11 c = 0"
  shows "clusterval NMI y clusterid = Inl ZeroDivisionError"
  using assms by (auto simp: clusterval_def float_div_def Let_def)

theorem clusterval_zero_division_witness:
  "clusterval 1 [3 :: int] [4 :: int] = Inl ZeroDivisionError
   \<and> clusterval 1 [1, 2 :: int] [7, 8 :: int] = Inl ZeroDivisionError"
proof -
  have c1: "\<lparr>f00 = 0, f01 = 0, f10 = 0, f11 = 0\<rparr> = pair_counts [3 :: int] [4 :: int]"
    by code_simp
  have c2: "\<lparr>f00 = 1, f01 = 0, f10 = 0, f11 = 0\<rparr> = pair_counts [1, 2 :: int] [7, 8 :: int]"
    by code_simp
  have "clusterval 1 [3 :: int] [4 :: int] = Inl ZeroDivisionError"
    by (rule clusterval_zero_division[OF _ c1]) simp_all
  moreover have "clusterval 1 [1, 2 :: int] [7, 8 :: int] = Inl ZeroDivisionError"
    by (rule clusterval_zero_division[OF _ c2]) simp_all
  ultimately show ?thesis by simp
qed

text \<open>
  As first stated, C7 has the call return NaN or an infinity on such an input. Three
  observations, pairwise different in label and in cluster, give an error instead.
\<close>

theorem clusterval_zero_division_counterexample:
  "clusterval 1 [1, 2, 3 :: int] [4, 5, 6 :: int] = Inl ZeroDivisionError"
  by code_simp

section \<open>The discretizer: the loop and the classes\<close>

lemma length_store_fold:
  "length (fold (\<lambda>i xs. xs[i := f i]) is xs) = length xs"
  by (induction "is" arbitrary: xs) simp_all

lemma nth_store_fold:
  "k < length xs \<Longrightarrow>
     fold (\<lambda>i xs. xs[i := f i]) is xs ! k = (if k \<in> set is then f k else xs ! k)"
  by (induction "is" arbitrary: xs) (auto simp: length_store_fold nth_list_update)

lemma store_fold_upt:
  assumes "length xs = n"
  shows "fold (\<lambda>i xs. xs[i := f i]) [0..<n] xs = map f [0..<n]"
  by (rule nth_equalityI) (simp_all add: length_store_fold nth_store_fold assms)

lemma classY_loop_Array1:
  assumes "\<forall>i \<in> set is. i < length xs"
  shows "classY_loop pct y is (Array1 xs)
           = Inr (Array1 (fold (\<lambda>i xs. xs[i := class_of pct y i]) is xs))"
  using assms by (induction "is" arbitrary: xs) simp_all

lemma classY_vector:
  assumes "length y \<noteq> 1"
  shows "classY pct y = Inr (Array1 (map (class_of pct y) [0..<length y]))"
  using assms
  by (simp add: classY_def empty_squeezed_def classY_loop_Array1 store_fold_upt)

text \<open>
  C1 (failing input). On a vector with a single observation the array to fill is
  0-dimensional, and the assignment of the first class raises \<open>IndexError\<close>, whatever the
  percentiles are: no vector of length 1 is produced.
\<close>

theorem classY_single_observation: "classY np_percentile [x] = Inl IndexError"
  by (simp add: classY_def empty_squeezed_def)

lemma class_of_cases:
  assumes "pct y 25 \<le> pct y 50" and "pct y 50 \<le> pct y 75"
  shows "(class_of pct y i = 0 \<longleftrightarrow> y ! i \<le> pct y 25)
       \<and> (class_of pct y i = 1 \<longleftrightarrow> pct y 25 < y ! i \<and> y ! i \<le> pct y 50)
       \<and> (class_of pct y i = 2 \<longleftrightarrow> pct y 50 < y ! i \<and> y ! i \<le> pct y 75)
       \<and> (class_of pct y i = 3 \<longleftrightarrow> pct y 75 < y ! i)"
  unfolding class_of_def using assms by auto

lemma class_of_mono:
  assumes "y ! i \<le> y ! j"
  shows "class_of pct y i \<le> class_of pct y j"
  using assms unfolding class_of_def by auto

text \<open>
  From two observations on, and with the three percentiles in order, the discretizer
  returns a vector of the length of \<open>y\<close> whose entry \<open>i\<close> is 0, 1, 2 or 3 as \<open>y[i]\<close> lies in
  the first, second, third or fourth of the intervals the percentiles cut; a value equal
  to a percentile is in the lower class.
\<close>

lemma classY_quartile_classes:
  assumes "2 \<le> length y" and "pct y 25 \<le> pct y 50" and "pct y 50 \<le> pct y 75"
  shows "\<exists>cs. classY pct y = Inr (Array1 cs) \<and> length cs = length y
          \<and> (\<forall>i < length y.
               (cs ! i = 0 \<longleftrightarrow> y ! i \<le> pct y 25)
             \<and> (cs ! i = 1 \<longleftrightarrow> pct y 25 < y ! i \<and> y ! i \<le> pct y 50)
             \<and> (cs ! i = 2 \<longleftrightarrow> pct y 50 < y ! i \<and> y ! i \<le> pct y 75)
             \<and> (cs ! i = 3 \<longleftrightarrow> pct y 75 < y ! i))"
proof -
  have "classY pct y = Inr (Array1 (map (class_of pct y) [0..<length y]))"
    using assms(1) by (intro classY_vector) simp
  then show ?thesis
    using class_of_cases[of pct y, OF assms(2,3)] by simp
qed

text \<open>
  C8. For every vector \<open>y\<close>, a result of the discretizer is a vector of the length of \<open>y\<close>
  whose classes are monotone in \<open>y\<close>: \<open>y[i] \<le> y[j]\<close> implies \<open>classY[i] \<le> classY[j]\<close>. There
  is a result for every length but 1. Both hold whatever values the percentiles have.
\<close>

theorem classY_monotone:
  "(\<forall>a. classY np_percentile y = Inr a \<longrightarrow>
      (\<exists>cs. a = Array1 cs \<and> length cs = length y
         \<and> (\<forall>i < length y. \<forall>j < length y. y ! i \<le> y ! j \<longrightarrow> cs ! i \<le> cs ! j)))
   \<and> (length y \<noteq> 1 \<longrightarrow> (\<exists>a. classY np_percentile y = Inr a))"
proof (cases "length y = 1")
  case True
  then obtain x where "y = [x]" by (cases y) auto
  then have "classY np_percentile y = Inl IndexError"
    by (simp add: classY_def empty_squeezed_def)
  with True show ?thesis by simp
next
  case False
  then have "classY np_percentile y
               = Inr (Array1 (map (class_of np_percentile y) [0..<length y]))"
    by (rule classY_vector)
  then show ?thesis
    using class_of_mono by simp
qed

section \<open>The discretizer: class sizes\<close>

lemma strict_sorted_nth:
  fixes s :: "real list"
  assumes "sorted s" "distinct s" "i < j" "j < length s"
  shows "s ! i < s ! j"
proof -
  have "s ! i \<le> s ! j" using assms by (intro sorted_nth_mono) simp_all
  moreover have "s ! i \<noteq> s ! j" using assms by (simp add: nth_eq_iff_index_eq)
  ultimately show ?thesis by simp
qed

lemma count_le_prefix:
  fixes s :: "real list"
  assumes "sorted s" "k < length s" "s ! k \<le> v"
    and above: "\<And>j. k < j \<Longrightarrow> j < length s \<Longrightarrow> v < s ! j"
  shows "length (filter (\<lambda>x. x \<le> v) s) = k + 1"
proof -
  have low: "\<forall>x \<in> set (take (Suc k) s). x \<le> v"
  proof
    fix x assume "x \<in> set (take (Suc k) s)"
    then obtain i where i: "i < Suc k" "i < length s" "x = s ! i"
      by (auto simp: in_set_conv_nth)
    then have "s ! i \<le> s ! k" using assms(1,2) by (intro sorted_nth_mono) simp_all
    with i assms(3) show "x \<le> v" by simp
  qed
  have high: "\<forall>x \<in> set (drop (Suc k) s). \<not> x \<le> v"
  proof
    fix x assume "x \<in> set (drop (Suc k) s)"
    then obtain i where "i < length (drop (Suc k) s)" "drop (Suc k) s ! i = x"
      unfolding in_set_conv_nth by blast
    then have i: "Suc k + i < length s" "x = s ! (Suc k + i)" by auto
    have "v < s ! (Suc k + i)" using i(1) by (intro above) simp_all
    then show "\<not> x \<le> v" using i(2) by simp
  qed
  have "filter (\<lambda>x. x \<le> v) s
          = filter (\<lambda>x. x \<le> v) (take (Suc k) s) @ filter (\<lambda>x. x \<le> v) (drop (Suc k) s)"
    by (simp flip: filter_append)
  also have "\<dots> = take (Suc k) s"
    using low high by (simp add: filter_empty_conv)
  finally show ?thesis using assms(2) by simp
qed

lemma length_filter_sort:
  fixes a :: "real list"
  shows "length (filter P (sort a)) = length (filter P a)"
proof -
  have "mset (filter P (sort a)) = mset (filter P a)" by simp
  then show ?thesis by (rule mset_eq_length)
qed

text \<open>
  Among pairwise different values, a threshold at or above the order statistic \<open>lo\<close> and
  below the next one has exactly \<open>lo + 1\<close> values at or below it.
\<close>

lemma count_le_bracket:
  fixes a :: "real list"
  assumes "distinct a" and "lo + 1 < length a"
    and "sort a ! lo \<le> p" and "p < sort a ! (lo + 1)"
  shows "length (filter (\<lambda>x. x \<le> p) a) = lo + 1"
proof -
  have "length (filter (\<lambda>x. x \<le> p) (sort a)) = lo + 1"
  proof (rule count_le_prefix)
    show "sorted (sort a)" by simp
    show "lo < length (sort a)" using assms(2) by simp
    show "sort a ! lo \<le> p" by (rule assms(3))
  next
    fix j assume j: "lo < j" "j < length (sort a)"
    show "p < sort a ! j"
    proof (cases "j = lo + 1")
      case True
      with assms(4) show ?thesis by simp
    next
      case False
      with j have "lo + 1 < j" by simp
      then have "sort a ! (lo + 1) < sort a ! j"
        using assms(1) j(2) by (intro strict_sorted_nth) simp_all
      with assms(4) show ?thesis by simp
    qed
  qed
  then show ?thesis by (simp only: length_filter_sort)
qed

lemma count_between:
  fixes a b :: real
  assumes "a \<le> b"
  shows "length (filter (\<lambda>x. a < x \<and> x \<le> b) xs) + length (filter (\<lambda>x. x \<le> a) xs)
           = length (filter (\<lambda>x. x \<le> b) xs)"
  using assms by (induction xs) auto

lemma count_above:
  fixes a :: real
  shows "length (filter (\<lambda>x. a < x) xs) + length (filter (\<lambda>x. x \<le> a) xs) = length xs"
  by (induction xs) auto

lemma count_indices:
  "length (filter (\<lambda>i. Q (y ! i)) [0..<length y]) = length (filter Q y)"
proof -
  have "length (filter Q (map (\<lambda>i. y ! i) [0..<length y]))
          = length (filter (\<lambda>i. Q (y ! i)) [0..<length y])"
    by (simp add: filter_map comp_def)
  then show ?thesis by (simp add: map_nth)
qed

lemma class_size_map:
  "class_size (map (class_of pct y) [0..<length y]) k
     = length (filter (\<lambda>i. class_of pct y i = k) [0..<length y])"
  by (simp add: class_size_def filter_map comp_def)

lemma class_sizes:
  assumes a: "pct y 25 \<le> pct y 50" and b: "pct y 50 \<le> pct y 75"
  defines "cs \<equiv> map (class_of pct y) [0..<length y]"
  shows "class_size cs 0 = length (filter (\<lambda>x. x \<le> pct y 25) y)"
    and "class_size cs 1 + length (filter (\<lambda>x. x \<le> pct y 25) y)
           = length (filter (\<lambda>x. x \<le> pct y 50) y)"
    and "class_size cs 2 + length (filter (\<lambda>x. x \<le> pct y 50) y)
           = length (filter (\<lambda>x. x \<le> pct y 75) y)"
    and "class_size cs 3 + length (filter (\<lambda>x. x \<le> pct y 75) y) = length y"
proof -
  note c = class_of_cases[of pct y, OF a b]
  have "class_size cs 0 = length (filter (\<lambda>i. y ! i \<le> pct y 25) [0..<length y])"
    unfolding cs_def class_size_map using c by simp
  then show "class_size cs 0 = length (filter (\<lambda>x. x \<le> pct y 25) y)"
    by (simp only: count_indices[of "\<lambda>x. x \<le> pct y 25" y])
  have "class_size cs 1
          = length (filter (\<lambda>i. pct y 25 < y ! i \<and> y ! i \<le> pct y 50) [0..<length y])"
    unfolding cs_def class_size_map using c by simp
  then have "class_size cs 1 = length (filter (\<lambda>x. pct y 25 < x \<and> x \<le> pct y 50) y)"
    by (simp only: count_indices[of "\<lambda>x. pct y 25 < x \<and> x \<le> pct y 50" y])
  then show "class_size cs 1 + length (filter (\<lambda>x. x \<le> pct y 25) y)
           = length (filter (\<lambda>x. x \<le> pct y 50) y)"
    using count_between[OF a, of y] by simp
  have "class_size cs 2
          = length (filter (\<lambda>i. pct y 50 < y ! i \<and> y ! i \<le> pct y 75) [0..<length y])"
    unfolding cs_def class_size_map using c by simp
  then have "class_size cs 2 = length (filter (\<lambda>x. pct y 50 < x \<and> x \<le> pct y 75) y)"
    by (simp only: count_indices[of "\<lambda>x. pct y 50 < x \<and> x \<le> pct y 75" y])
  then show "class_size cs 2 + length (filter (\<lambda>x. x \<le> pct y 50) y)
           = length (filter (\<lambda>x. x \<le> pct y 75) y)"
    using count_between[OF b, of y] by simp
  have "class_size cs 3 = length (filter (\<lambda>i. pct y 75 < y ! i) [0..<length y])"
    unfolding cs_def class_size_map using c by simp
  then have "class_size cs 3 = length (filter (\<lambda>x. pct y 75 < x) y)"
    by (simp only: count_indices[of "\<lambda>x. pct y 75 < x" y])
  then show "class_size cs 3 + length (filter (\<lambda>x. x \<le> pct y 75) y) = length y"
    using count_above[of "pct y 75" y] by simp
qed

lemma lower_index_25: "lower_index y 25 = (length y - 1) div 4"
proof -
  have "25 / 100 * real (length y - 1) = real (length y - 1) / real 4" by simp
  then show ?thesis unfolding lower_index_def by (simp only: floor_divide_of_nat_eq nat_int)
qed

lemma lower_index_50: "lower_index y 50 = (length y - 1) div 2"
proof -
  have "50 / 100 * real (length y - 1) = real (length y - 1) / real 2" by simp
  then show ?thesis unfolding lower_index_def by (simp only: floor_divide_of_nat_eq nat_int)
qed

lemma lower_index_75: "lower_index y 75 = (3 * (length y - 1)) div 4"
proof -
  have "75 / 100 * real (length y - 1) = real (3 * (length y - 1)) / real 4" by simp
  then show ?thesis unfolding lower_index_def by (simp only: floor_divide_of_nat_eq nat_int)
qed

lemma quartile_arith:
  fixes m s0 s1 s2 s3 :: nat
  assumes "s0 = m div 4 + 1"
    and "s1 + (m div 4 + 1) = m div 2 + 1"
    and "s2 + (m div 2 + 1) = (3 * m) div 4 + 1"
    and "s3 + ((3 * m) div 4 + 1) = m + 1"
  shows "(m + 1) div 4 \<le> s0 \<and> s0 \<le> (m + 4) div 4"
    and "(m + 1) div 4 \<le> s1 \<and> s1 \<le> (m + 4) div 4"
    and "(m + 1) div 4 \<le> s2 \<and> s2 \<le> (m + 4) div 4"
    and "(m + 1) div 4 \<le> s3 \<and> s3 \<le> (m + 4) div 4"
proof -
  define k r where "k = m div 4" and "r = m mod 4"
  have m: "m = 4 * k + r" and r: "r < 4" by (simp_all add: k_def r_def)
  have d2: "m div 2 = 2 * k + r div 2" unfolding m by presburger
  have d34: "(3 * m) div 4 = 3 * k + (3 * r) div 4" unfolding m by presburger
  have d1: "(m + 1) div 4 = k + (r + 1) div 4" unfolding m by presburger
  have d4: "(m + 4) div 4 = k + 1" unfolding m using r by presburger
  have d0: "m div 4 = k" by (simp add: k_def)
  from r have "r = 0 \<or> r = 1 \<or> r = 2 \<or> r = 3" by arith
  then have "(m + 1) div 4 \<le> s0 \<and> s0 \<le> (m + 4) div 4
    \<and> (m + 1) div 4 \<le> s1 \<and> s1 \<le> (m + 4) div 4
    \<and> (m + 1) div 4 \<le> s2 \<and> s2 \<le> (m + 4) div 4
    \<and> (m + 1) div 4 \<le> s3 \<and> s3 \<le> (m + 4) div 4"
    using assms[unfolded d0 d2 d34] m unfolding d1 d4 by (elim disjE) simp_all
  then show "(m + 1) div 4 \<le> s0 \<and> s0 \<le> (m + 4) div 4"
    and "(m + 1) div 4 \<le> s1 \<and> s1 \<le> (m + 4) div 4"
    and "(m + 1) div 4 \<le> s2 \<and> s2 \<le> (m + 4) div 4"
    and "(m + 1) div 4 \<le> s3 \<and> s3 \<le> (m + 4) div 4" by simp_all
qed

text \<open>
  C9 (amended). For every vector \<open>y\<close> of \<open>N \<ge> 4\<close> pairwise different values, if each of the
  three percentiles the code computes is at least its lower order statistic and less than
  the next one, as the exactly interpolated percentile is, then each of the four classes
  receives between \<open>\<lfloor>N/4\<rfloor>\<close> and \<open>\<lceil>N/4\<rceil>\<close> members; \<open>\<lceil>N/4\<rceil>\<close> is written \<open>(N + 3) div 4\<close>.
\<close>

theorem classY_balanced:
  assumes "4 \<le> length y" and "distinct y"
    and "brackets np_percentile y 25" and "brackets np_percentile y 50"
    and "brackets np_percentile y 75"
  shows "\<exists>cs. classY np_percentile y = Inr (Array1 cs)
          \<and> (\<forall>k < 4. length y div 4 \<le> class_size cs k
                     \<and> class_size cs k \<le> (length y + 3) div 4)"
proof -
  define cs where "cs = map (class_of np_percentile y) [0..<length y]"
  obtain m where nm: "length y = m + 1" using assms(1) by (cases y) auto
  then have m1: "length y - 1 = m" and m3: "3 \<le> m" using assms(1) by simp_all
  have r: "classY np_percentile y = Inr (Array1 cs)"
    unfolding cs_def using assms(1) by (intro classY_vector) simp
  note b25 = assms(3)[unfolded brackets_def lower_index_25 m1]
  note b50 = assms(4)[unfolded brackets_def lower_index_50 m1]
  note b75 = assms(5)[unfolded brackets_def lower_index_75 m1]
  have k1: "m div 4 + 1 \<le> m div 2" and k2: "m div 2 + 1 \<le> 3 * m div 4"
    and k3: "3 * m div 4 < m"
    using m3 by presburger+
  have "sort y ! (m div 4 + 1) \<le> sort y ! (m div 2)"
    using k1 k2 k3 nm by (intro sorted_nth_mono) simp_all
  with b25 b50 have o1: "np_percentile y 25 \<le> np_percentile y 50" by simp
  have i25: "m div 4 + 1 < length y" and i50: "m div 2 + 1 < length y"
    and i75: "3 * m div 4 + 1 < length y"
    using k1 k2 k3 nm by simp_all
  have "sort y ! (m div 2 + 1) \<le> sort y ! (3 * m div 4)"
    using k2 k3 nm by (intro sorted_nth_mono) simp_all
  with b50 b75 have o2: "np_percentile y 50 \<le> np_percentile y 75" by simp
  have c25: "length (filter (\<lambda>x. x \<le> np_percentile y 25) y) = m div 4 + 1"
    using assms(2) i25 b25 by (intro count_le_bracket) simp_all
  have c50: "length (filter (\<lambda>x. x \<le> np_percentile y 50) y) = m div 2 + 1"
    using assms(2) i50 b50 by (intro count_le_bracket) simp_all
  have c75: "length (filter (\<lambda>x. x \<le> np_percentile y 75) y) = 3 * m div 4 + 1"
    using assms(2) i75 b75 by (intro count_le_bracket) simp_all
  note s = class_sizes[of np_percentile y, OF o1 o2, folded cs_def, unfolded c25 c50 c75]
  have s4: "class_size cs 3 + (3 * m div 4 + 1) = m + 1" using s(4) nm by simp
  note q = quartile_arith[OF s(1) s(2) s(3) s4]
  have "length y div 4 \<le> class_size cs k \<and> class_size cs k \<le> (length y + 3) div 4"
    if "k < 4" for k
  proof -
    from that have "k = 0 \<or> k = 1 \<or> k = 2 \<or> k = 3" by arith
    then show ?thesis using q unfolding nm by (auto simp: add.commute)
  qed
  with r show ?thesis by blast
qed

section \<open>The exactly interpolated percentile\<close>

lemma interp_bounds:
  fixes x y w :: real
  assumes "x \<le> y" "0 \<le> w" "w \<le> 1"
  shows "x \<le> x * (1 - w) + y * w" and "x * (1 - w) + y * w \<le> y"
proof -
  have e: "x * (1 - w) + y * w = x + w * (y - x)" by (simp add: algebra_simps)
  have "0 \<le> w * (y - x)" using assms by simp
  then show "x \<le> x * (1 - w) + y * w" unfolding e by simp
  have "w * (y - x) \<le> 1 * (y - x)" using assms by (intro mult_right_mono) simp_all
  then show "x * (1 - w) + y * w \<le> y" unfolding e by simp
qed

lemma interp_mono:
  fixes x y w w' :: real
  assumes "x \<le> y" "w \<le> w'"
  shows "x * (1 - w) + y * w \<le> x * (1 - w') + y * w'"
proof -
  have "w * (y - x) \<le> w' * (y - x)" using assms by (intro mult_right_mono) simp_all
  then show ?thesis by (simp add: algebra_simps)
qed

lemma nat_floor_bounds:
  fixes t :: real
  assumes "0 \<le> t"
  shows "real (nat \<lfloor>t\<rfloor>) \<le> t" and "t < real (nat \<lfloor>t\<rfloor>) + 1"
proof -
  have "0 \<le> \<lfloor>t\<rfloor>" using assms by simp
  then have r: "real (nat \<lfloor>t\<rfloor>) = of_int \<lfloor>t\<rfloor>" by simp
  show "real (nat \<lfloor>t\<rfloor>) \<le> t" unfolding r by simp
  show "t < real (nat \<lfloor>t\<rfloor>) + 1" unfolding r by linarith
qed

lemma nat_floor_le:
  fixes t :: real
  assumes "0 \<le> t" "t \<le> real m"
  shows "nat \<lfloor>t\<rfloor> \<le> m"
proof -
  have "\<lfloor>t\<rfloor> \<le> \<lfloor>real m\<rfloor>" using assms(2) by (rule floor_mono)
  then show ?thesis by simp
qed

lemma virtual_index_range:
  fixes q :: real
  assumes "0 \<le> q" "q \<le> 100"
  shows "0 \<le> q / 100 * real m" and "q / 100 * real m \<le> real m"
proof -
  show "0 \<le> q / 100 * real m" using assms by simp
  have "q / 100 * real m \<le> 1 * real m"
    using assms by (intro mult_right_mono) simp_all
  then show "q / 100 * real m \<le> real m" by simp
qed


lemma percentile_eq:
  assumes "t = q / 100 * real (length a - 1)" and "lo = nat \<lfloor>t\<rfloor>"
    and "hi = upper_index (length a) lo"
  shows "percentile a q = sort a ! lo * (1 - (t - real lo)) + sort a ! hi * (t - real lo)"
  unfolding percentile_def Let_def assms upper_index_def by (rule refl)

text \<open>The percentile lies between the two order statistics it interpolates.\<close>

lemma percentile_between:
  assumes "a \<noteq> []" "0 \<le> q" "q \<le> 100"
    and lo: "lo = nat \<lfloor>q / 100 * real (length a - 1)\<rfloor>"
    and hi: "hi = upper_index (length a) lo"
  shows "lo \<le> hi" and "hi < length a"
    and "sort a ! lo \<le> percentile a q" and "percentile a q \<le> sort a ! hi"
proof -
  define t where "t = q / 100 * real (length a - 1)"
  have lo': "lo = nat \<lfloor>t\<rfloor>" unfolding lo t_def by (rule refl)
  have n: "0 < length a" using assms(1) by simp
  have t: "0 \<le> t" "t \<le> real (length a - 1)"
    unfolding t_def using virtual_index_range[OF assms(2,3)] by blast+
  have lom: "lo \<le> length a - 1" unfolding lo' using t by (rule nat_floor_le)
  show lohi: "lo \<le> hi" unfolding hi upper_index_def using lom by simp
  show him: "hi < length a" unfolding hi upper_index_def using n by auto
  have w: "0 \<le> t - real lo" "t - real lo \<le> 1"
    unfolding lo' using nat_floor_bounds[OF t(1)] by linarith+
  have s: "sort a ! lo \<le> sort a ! hi"
    using lohi him by (intro sorted_nth_mono) simp_all
  note p = percentile_eq[OF t_def lo' hi]
  show "sort a ! lo \<le> percentile a q" unfolding p using s w by (rule interp_bounds)
  show "percentile a q \<le> sort a ! hi" unfolding p using s w by (rule interp_bounds)
qed

lemma percentile_mono:
  assumes "a \<noteq> []" "0 \<le> q" "q \<le> r" "r \<le> 100"
  shows "percentile a q \<le> percentile a r"
proof -
  define t where "t = q / 100 * real (length a - 1)"
  define u where "u = r / 100 * real (length a - 1)"
  define k where "k = nat \<lfloor>t\<rfloor>"
  define l where "l = nat \<lfloor>u\<rfloor>"
  define h where "h = upper_index (length a) k"
  define g where "g = upper_index (length a) l"
  have q100: "q \<le> 100" and r0: "0 \<le> r" using assms by simp_all
  have tu: "t \<le> u" unfolding t_def u_def
    using assms(3) by (intro mult_right_mono divide_right_mono) simp_all
  have kl: "k \<le> l" unfolding k_def l_def using tu by (intro nat_mono floor_mono)
  note bq = percentile_between[OF assms(1,2) q100 k_def[unfolded t_def] h_def]
  note br = percentile_between[OF assms(1) r0 assms(4) l_def[unfolded u_def] g_def]
  show ?thesis
  proof (cases "k = l")
    case True
    then have gh: "g = h" by (simp add: g_def h_def)
    note pq = percentile_eq[OF t_def k_def h_def]
    note pr = percentile_eq[OF u_def l_def g_def, unfolded gh True[symmetric]]
    have s: "sort a ! k \<le> sort a ! h"
      using bq(1,2) by (intro sorted_nth_mono) simp_all
    have "t - real k \<le> u - real k" using tu by simp
    with s show ?thesis unfolding pq pr by (rule interp_mono)
  next
    case False
    with kl have "k < l" by simp
    then have "h \<le> l" by (simp add: h_def upper_index_def)
    moreover have "l < length a" using br(1,2) by simp
    ultimately have "sort a ! h \<le> sort a ! l"
      by (intro sorted_nth_mono) simp_all
    with bq(4) br(3) show ?thesis by simp
  qed
qed


lemma percentile_strict:
  assumes "distinct a" "2 \<le> length a" "0 \<le> q" "q < 100"
    and lo: "lo = nat \<lfloor>q / 100 * real (length a - 1)\<rfloor>"
  shows "lo + 1 < length a"
    and "sort a ! lo \<le> percentile a q" and "percentile a q < sort a ! (lo + 1)"
proof -
  define t where "t = q / 100 * real (length a - 1)"
  have lo': "lo = nat \<lfloor>t\<rfloor>" unfolding lo t_def by (rule refl)
  have ne: "a \<noteq> []" using assms(2) by auto
  define m where "m = real (length a - 1)"
  have m: "0 < m" unfolding m_def using assms(2) by simp
  have t0: "0 \<le> t" unfolding t_def using assms(3) by simp
  have "q / 100 * m < 1 * m"
    using assms(4) m by (intro mult_strict_right_mono) simp_all
  then have tm: "t < real (length a - 1)" unfolding t_def m_def by (simp only: mult_1)
  have "real lo < real (length a - 1)"
    using nat_floor_bounds(1)[OF t0] tm unfolding lo' by linarith
  then have lom: "lo < length a - 1" by simp
  then show lo1: "lo + 1 < length a" by simp
  have hi: "lo + 1 = upper_index (length a) lo"
    using lom by (simp add: upper_index_def)
  have w: "0 \<le> t - real lo" "t - real lo < 1"
    unfolding lo' using nat_floor_bounds[OF t0] by linarith+
  have s: "sort a ! lo < sort a ! (lo + 1)"
    using assms(1) lo1 by (intro strict_sorted_nth) simp_all
  note p = percentile_eq[OF t_def lo' hi]
  have e: "sort a ! lo * (1 - (t - real lo)) + sort a ! (lo + 1) * (t - real lo)
             = sort a ! lo + (t - real lo) * (sort a ! (lo + 1) - sort a ! lo)"
    by (simp add: algebra_simps)
  have "0 \<le> (t - real lo) * (sort a ! (lo + 1) - sort a ! lo)"
    using w(1) s by simp
  then show "sort a ! lo \<le> percentile a q" unfolding p e by simp
  have "(t - real lo) * (sort a ! (lo + 1) - sort a ! lo)
          < 1 * (sort a ! (lo + 1) - sort a ! lo)"
    using w(2) s by (intro mult_strict_right_mono) simp_all
  then show "percentile a q < sort a ! (lo + 1)" unfolding p e by simp
qed

text \<open>
  On pairwise different data the exactly interpolated percentile is at least its lower
  order statistic and less than the next one, for every \<open>q\<close> below 100.
\<close>

lemma percentile_brackets:
  assumes "distinct y" "2 \<le> length y" "0 \<le> q" "q < 100"
  shows "brackets percentile y q"
  unfolding brackets_def
  using percentile_strict[OF assms, of "lower_index y q"]
  by (simp add: lower_index_def)

section \<open>The discretizer: instances\<close>

theorem classY_monotone_witness:
  "\<exists>cs. classY percentile [3, 1, 2] = Inr (Array1 cs) \<and> length cs = 3
     \<and> cs ! 1 \<le> cs ! 2 \<and> cs ! 2 \<le> cs ! 0"
proof -
  from classY_monotone[of percentile "[3, 1, 2]"]
  obtain a where a: "classY percentile [3, 1, 2] = Inr a"
    by auto
  with classY_monotone[of percentile "[3, 1, 2]"] obtain cs where
    cs: "a = Array1 cs" "length cs = 3"
      "\<forall>i < 3. \<forall>j < 3. [3, 1, 2 :: real] ! i \<le> [3, 1, 2] ! j \<longrightarrow> cs ! i \<le> cs ! j"
    by auto
  from cs(3) have "cs ! 1 \<le> cs ! 2" by (elim allE[of _ 1] allE[of _ 2]) simp
  moreover from cs(3) have "cs ! 2 \<le> cs ! 0" by (elim allE[of _ 2] allE[of _ 0]) simp
  ultimately show ?thesis using a cs(1,2) by blast
qed

theorem classY_balanced_witness:
  "\<exists>cs. classY percentile [4, 1, 3, 2, 5] = Inr (Array1 cs)
     \<and> 1 \<le> class_size cs 0 \<and> class_size cs 0 \<le> 2 \<and> 1 \<le> class_size cs 3 \<and> class_size cs 3 \<le> 2"
proof -
  have d: "distinct [4, 1, 3, 2, 5 :: real]" and n: "2 \<le> length [4, 1, 3, 2, 5 :: real]"
    by simp_all
  have b: "brackets percentile [4, 1, 3, 2, 5] 25" "brackets percentile [4, 1, 3, 2, 5] 50"
    "brackets percentile [4, 1, 3, 2, 5] 75"
    by (rule percentile_brackets[OF d n]; simp)+
  from classY_balanced[of "[4, 1, 3, 2, 5]" percentile, OF _ d b] obtain cs where
    cs: "classY percentile [4, 1, 3, 2, 5] = Inr (Array1 cs)"
      "\<forall>k < 4. 1 \<le> class_size cs k \<and> class_size cs k \<le> 2"
    by auto
  from cs(2) have "1 \<le> class_size cs 0 \<and> class_size cs 0 \<le> 2" by (elim allE[of _ 0]) simp
  moreover from cs(2) have "1 \<le> class_size cs 3 \<and> class_size cs 3 \<le> 2" by (elim allE[of _ 3]) simp
  ultimately show ?thesis using cs(1) by blast
qed

text \<open>
  As first stated, C9 asks for four distinct values only. The vector \<open>[1,2,2,3,4]\<close> has
  them; its 25th, 50th and 75th percentile sit on the order statistics 2, 2 and 3, where
  the interpolation has weight 0 and is exact also in float64. Its classes have 3, 0, 1
  and 1 members, outside \<open>\<lfloor>5/4\<rfloor> = 1\<close> to \<open>\<lceil>5/4\<rceil> = 2\<close>.
\<close>

theorem classY_balanced_counterexample:
  "classY percentile [1, 2, 2, 3, 4] = Inr (Array1 [0, 0, 0, 2, 3])
   \<and> percentile [1, 2, 2, 3, 4] 25 = 2 \<and> percentile [1, 2, 2, 3, 4] 50 = 2
   \<and> percentile [1, 2, 2, 3, 4] 75 = 3
   \<and> length [1, 2, 2, 3, 4 :: real] = 5 \<and> card (set [1, 2, 2, 3, 4 :: real]) = 4
   \<and> class_size [0, 0, 0, 2, 3] 0 = 3 \<and> (5 + 3) div 4 = (2 :: nat)
   \<and> class_size [0, 0, 0, 2, 3] 1 = 0 \<and> 5 div 4 = (1 :: nat)"
proof -
  have "classY percentile [1, 2, 2, 3, 4] = Inr (Array1 [0, 0, 0, 2, 3])"
    by code_simp
  moreover have "percentile [1, 2, 2, 3, 4] 25 = 2" "percentile [1, 2, 2, 3, 4] 50 = 2"
    "percentile [1, 2, 2, 3, 4] 75 = 3"
    by code_simp+
  ultimately show ?thesis by (simp add: class_size_def)
qed

text \<open>
  The bound on the percentiles is needed. Between the adjacent doubles \<open>1\<close> and
  \<open>1 + 2^-52\<close> the interpolation with weight \<open>3/4\<close> has no double of its own and rounds to
  the upper one. With a 25th percentile on the upper order statistic, four pairwise
  different values get the classes 0, 0, 2, 3: class 0 has two members and class 1 none.
\<close>

lemma classY_percentile_on_upper:
  "classY (\<lambda>a q. if q = 25 then 1 + 1 / 2 ^ 52 else percentile a q) [1, 1 + 1 / 2 ^ 52, 2, 3]
     = Inr (Array1 [0, 0, 2, 3])"
  by code_simp

end
